theory Spec2Isabelle
  imports Main "HOL-Library.Word" "HOL-Library.AList"
begin

unbundle bit_operations_syntax

section \<open>Base64 encoder\<close>

text \<open>
  \<^verbatim>\<open>encodeBase64(buffer: Uint8Array, padded = true, urlSafe = false)\<close> of
  \<^verbatim>\<open>notebookImagePaste.ts\<close>. The elements of a \<^verbatim>\<open>Uint8Array\<close> are 8-bit words; the
  bitwise operators of the source work on 32-bit integers, so every byte is widened
  with \<open>ucast\<close> before it is shifted. A string is a list of characters and
  \<^verbatim>\<open>output += ch\<close> appends at the end.
\<close>

type_synonym byte = "8 word"

definition base64Alphabet :: string where
  "base64Alphabet = ''ABCDEFGHIJKLMNOPQRSTUVWXYZabcdefghijklmnopqrstuvwxyz0123456789+/''"

definition base64UrlSafeAlphabet :: string where
  "base64UrlSafeAlphabet = ''ABCDEFGHIJKLMNOPQRSTUVWXYZabcdefghijklmnopqrstuvwxyz0123456789-_''"

text \<open>
  The \<^verbatim>\<open>for (; i < buffer.byteLength - remainder; i += 3)\<close> loop, with the loop bound
  as \<open>bound\<close>. It returns the final index together with the output, because the
  code after the loop reads \<^verbatim>\<open>buffer[i + 0]\<close> and \<^verbatim>\<open>buffer[i + 1]\<close>.
\<close>

function encode_groups :: "string \<Rightarrow> byte list \<Rightarrow> nat \<Rightarrow> nat \<Rightarrow> string \<Rightarrow> nat \<times> string" where
  "encode_groups dictionary buffer bound i output =
     (if i < bound then
        (let a = (ucast (buffer ! (i + 0)) :: 32 word);
             b = (ucast (buffer ! (i + 1)) :: 32 word);
             c = (ucast (buffer ! (i + 2)) :: 32 word)
         in encode_groups dictionary buffer bound (i + 3)
              (output @
                [dictionary ! unat (drop_bit 2 a),
                 dictionary ! unat ((push_bit 4 a OR drop_bit 4 b) AND 63),
                 dictionary ! unat ((push_bit 2 b OR drop_bit 6 c) AND 63),
                 dictionary ! unat (c AND 63)]))
      else (i, output))"
  by pat_completeness auto
termination
  by (relation "measure (\<lambda>(dictionary, buffer, bound, i, output). bound - i)") auto

declare encode_groups.simps [simp del]

definition encodeBase64 :: "byte list \<Rightarrow> bool \<Rightarrow> bool \<Rightarrow> string" where
  "encodeBase64 buffer padded urlSafe =
     (let dictionary = (if urlSafe then base64UrlSafeAlphabet else base64Alphabet);
          remainder = length buffer mod 3;
          (i, output) = encode_groups dictionary buffer (length buffer - remainder) 0 []
      in if remainder = 1 then
           (let a = (ucast (buffer ! (i + 0)) :: 32 word)
            in output @
                 [dictionary ! unat (drop_bit 2 a),
                  dictionary ! unat (push_bit 4 a AND 63)] @
                 (if padded then ''=='' else []))
         else if remainder = 2 then
           (let a = (ucast (buffer ! (i + 0)) :: 32 word);
                b = (ucast (buffer ! (i + 1)) :: 32 word)
            in output @
                 [dictionary ! unat (drop_bit 2 a),
                  dictionary ! unat ((push_bit 4 a OR drop_bit 4 b) AND 63),
                  dictionary ! unat (push_bit 2 b AND 63)] @
                 (if padded then ''='' else []))
         else output)"


subsection \<open>The encoder as a recursion over the byte list\<close>

text \<open>
  The same output, written by recursion on the remaining bytes: one group of four
  characters for every full group of three bytes, then the one-byte or two-byte tail.
  These definitions only restate the loop body and the two tail branches; the lemma
  \<open>encodeBase64_list\<close> below proves that \<open>encodeBase64\<close> computes \<open>encode_list\<close>.
\<close>

definition dictionary_of :: "bool \<Rightarrow> string" where
  "dictionary_of urlSafe = (if urlSafe then base64UrlSafeAlphabet else base64Alphabet)"

definition group4 :: "string \<Rightarrow> byte \<Rightarrow> byte \<Rightarrow> byte \<Rightarrow> string" where
  "group4 d a b c =
     [d ! unat (drop_bit 2 (ucast a :: 32 word)),
      d ! unat ((push_bit 4 (ucast a :: 32 word) OR drop_bit 4 (ucast b :: 32 word)) AND 63),
      d ! unat ((push_bit 2 (ucast b :: 32 word) OR drop_bit 6 (ucast c :: 32 word)) AND 63),
      d ! unat ((ucast c :: 32 word) AND 63)]"

definition tail1 :: "string \<Rightarrow> bool \<Rightarrow> byte \<Rightarrow> string" where
  "tail1 d padded a =
     [d ! unat (drop_bit 2 (ucast a :: 32 word)),
      d ! unat (push_bit 4 (ucast a :: 32 word) AND 63)] @ (if padded then ''=='' else [])"

definition tail2 :: "string \<Rightarrow> bool \<Rightarrow> byte \<Rightarrow> byte \<Rightarrow> string" where
  "tail2 d padded a b =
     [d ! unat (drop_bit 2 (ucast a :: 32 word)),
      d ! unat ((push_bit 4 (ucast a :: 32 word) OR drop_bit 4 (ucast b :: 32 word)) AND 63),
      d ! unat (push_bit 2 (ucast b :: 32 word) AND 63)] @ (if padded then ''='' else [])"

fun encode_list :: "string \<Rightarrow> bool \<Rightarrow> byte list \<Rightarrow> string" where
  "encode_list d padded (a # b # c # rest) = group4 d a b c @ encode_list d padded rest"
| "encode_list d padded [a, b] = tail2 d padded a b"
| "encode_list d padded [a] = tail1 d padded a"
| "encode_list d padded [] = []"

fun full_groups :: "string \<Rightarrow> byte list \<Rightarrow> string" where
  "full_groups d (a # b # c # rest) = group4 d a b c @ full_groups d rest"
| "full_groups d [a, b] = []"
| "full_groups d [a] = []"
| "full_groups d [] = []"

subsection \<open>A reference decoder\<close>

text \<open>
  The companion decoder of the round-trip property is not part of the repository. This
  one follows RFC 4648 for the standard alphabet: the text is read four characters at a
  time, every character is looked up in \<open>base64Alphabet\<close>, the four 6-bit values are
  packed most significant first into 24 bits and cut into three bytes; \<^verbatim>\<open>=\<close> is
  accepted only as padding of the last group (\<^verbatim>\<open>xx==\<close> for one byte, \<^verbatim>\<open>xxx=\<close> for
  two). Any other text is rejected with \<open>None\<close>.
\<close>

fun index_of :: "'a \<Rightarrow> 'a list \<Rightarrow> nat option" where
  "index_of x [] = None"
| "index_of x (y # ys) = (if x = y then Some 0 else map_option Suc (index_of x ys))"

definition decode_symbol :: "char \<Rightarrow> 32 word option" where
  "decode_symbol ch = map_option of_nat (index_of ch base64Alphabet)"

definition decode_quad :: "char \<Rightarrow> char \<Rightarrow> char \<Rightarrow> char \<Rightarrow> byte list option" where
  "decode_quad c1 c2 c3 c4 =
     (case (decode_symbol c1, decode_symbol c2, decode_symbol c3, decode_symbol c4) of
        (Some x, Some y, Some z, Some w) \<Rightarrow>
          (let n = push_bit 18 x OR push_bit 12 y OR push_bit 6 z OR w
           in Some [ucast (drop_bit 16 n), ucast (drop_bit 8 n), ucast n])
      | _ \<Rightarrow> None)"

definition decode_pad1 :: "char \<Rightarrow> char \<Rightarrow> char \<Rightarrow> byte list option" where
  "decode_pad1 c1 c2 c3 =
     (case (decode_symbol c1, decode_symbol c2, decode_symbol c3) of
        (Some x, Some y, Some z) \<Rightarrow>
          (let n = push_bit 12 x OR push_bit 6 y OR z
           in Some [ucast (drop_bit 10 n), ucast (drop_bit 2 n)])
      | _ \<Rightarrow> None)"

definition decode_pad2 :: "char \<Rightarrow> char \<Rightarrow> byte list option" where
  "decode_pad2 c1 c2 =
     (case (decode_symbol c1, decode_symbol c2) of
        (Some x, Some y) \<Rightarrow> Some [ucast (drop_bit 4 (push_bit 6 x OR y))]
      | _ \<Rightarrow> None)"

fun decodeBase64Standard :: "string \<Rightarrow> byte list option" where
  "decodeBase64Standard [] = Some []"
| "decodeBase64Standard [c1, c2, c3, c4] =
     (if c3 = CHR ''='' \<and> c4 = CHR ''='' then decode_pad2 c1 c2
      else if c4 = CHR ''='' then decode_pad1 c1 c2 c3
      else decode_quad c1 c2 c3 c4)"
| "decodeBase64Standard (c1 # c2 # c3 # c4 # rest) =
     (case decode_quad c1 c2 c3 c4 of
        None \<Rightarrow> None
      | Some bs \<Rightarrow> map_option ((@) bs) (decodeBase64Standard rest))"
| "decodeBase64Standard _ = None"

text \<open>
  The substitution that turns the standard alphabet into the URL-safe one.
\<close>

definition url_char :: "char \<Rightarrow> char" where
  "url_char ch = (if ch = CHR ''+'' then CHR ''-'' else if ch = CHR ''/'' then CHR ''_'' else ch)"

section \<open>Attachment namer\<close>

text \<open>
  An attachment record \<^verbatim>\<open>{ mime: base64 }\<close> is the list of its entries in the order
  of \<^verbatim>\<open>Object.entries\<close>; the attachments object maps names to records. Both are the
  notebook's JSON data: ordinary objects, whose own properties are the entries of the
  list and which inherit the properties of \<^verbatim>\<open>Object.prototype\<close>. \<open>map_of\<close> is the
  read of an own property and \<open>AList.update\<close> the property write
  \<^verbatim>\<open>obj[key] = value\<close>: it replaces the value of a key that is present and adds a key
  that is not.
\<close>

type_synonym attachment_record = "(string \<times> string) list"
type_synonym attachment_store = "(string \<times> attachment_record) list"

text \<open>
  \<^verbatim>\<open>cell.metadata\<close> and \<^verbatim>\<open>cell.metadata.custom\<close> are untyped objects. The properties
  the code reads are fields; \<open>None\<close> is a falsy (absent) property; all other properties
  are carried along as a list of opaque values.
\<close>

record 'v custom_obj =
  attachments :: "attachment_store option"
  custom_other :: "(string \<times> 'v) list"

record 'v cell_metadata =
  custom :: "'v custom_obj option"
  metadata_other :: "(string \<times> 'v) list"

record uri =
  uri_scheme :: string
  uri_path :: string

record text_document =
  document_id :: nat
  document_uri :: uri

record 'v notebook_cell =
  cell_index :: nat
  cell_document :: text_document
  cell_notebook_uri :: uri
  cell_metadata :: "'v cell_metadata"

record 'v notebook_document =
  notebook_uri :: uri
  getCells :: "'v notebook_cell list"

datatype error = TypeError

record 'v attachment_result =
  out_metadata :: "'v cell_metadata"
  out_filename :: string

text \<open>
  The template literal \<^verbatim>\<open>`-${appendValue}`\<close> prints the counter in decimal. The counter
  starts at 2 and is incremented by one; it is modelled as a natural number, which is
  what the JavaScript number is for every value below \<open>2 ^ 53\<close>. The counter grows by
  one for each key of the store it passes, and no store has that many keys.
\<close>

definition digit_char :: "nat \<Rightarrow> char" where
  "digit_char d = ''0123456789'' ! d"

fun string_of_nat :: "nat \<Rightarrow> string" where
  "string_of_nat n =
     (if n < 10 then [digit_char n] else string_of_nat (n div 10) @ [digit_char (n mod 10)])"

declare string_of_nat.simps [simp del]

text \<open>
  The names of the properties every ordinary object inherits from
  \<^verbatim>\<open>Object.prototype\<close> (ECMAScript, with its Annex B). The value of each is a function,
  or for \<^verbatim>\<open>__proto__\<close> the prototype object itself; none of these values has an
  enumerable own property, so \<^verbatim>\<open>Object.entries\<close> of it is empty.
\<close>

definition object_prototype_keys :: "string list" where
  "object_prototype_keys =
     [''constructor'', ''__defineGetter__'', ''__defineSetter__'', ''hasOwnProperty'',
      ''__lookupGetter__'', ''__lookupSetter__'', ''isPrototypeOf'',
      ''propertyIsEnumerable'', ''toString'', ''valueOf'', ''__proto__'',
      ''toLocaleString'']"

text \<open>
  \<^verbatim>\<open>key in obj\<close> holds for an own key and for an inherited one.
  \<^verbatim>\<open>Object.entries(obj[key])\<close>, for a key that is in the object, is the stored record
  for an own key and empty for a key that is only inherited.
\<close>

definition has_property :: "attachment_store \<Rightarrow> string \<Rightarrow> bool" where
  "has_property obj key \<longleftrightarrow> key \<in> set (map fst obj) \<or> key \<in> set object_prototype_keys"

definition property_entries :: "attachment_store \<Rightarrow> string \<Rightarrow> attachment_record" where
  "property_entries obj key = (case map_of obj key of Some entries \<Rightarrow> entries | None \<Rightarrow> [])"

text \<open>
  One pass of \<^verbatim>\<open>for (let appendValue = 2; tempFilename in startingAttachments; appendValue++)\<close>:
  the test, the body and, unless the loop is left, the update \<^verbatim>\<open>appendValue++\<close>.
  \<open>Exit\<close> is leaving the loop (the test fails, or \<^verbatim>\<open>break\<close>) with the settled name;
  \<open>Again\<close> is the state in which the test is evaluated next.
\<close>

datatype loop_outcome = Exit string | Again string nat

definition collision_step ::
  "attachment_store \<Rightarrow> string \<Rightarrow> string \<Rightarrow> string \<Rightarrow> string \<Rightarrow> nat \<Rightarrow> loop_outcome" where
  "collision_step startingAttachments b64 filename filetype tempFilename appendValue =
     (if has_property startingAttachments tempFilename then
        (case property_entries startingAttachments tempFilename of
           [] \<Rightarrow> Again tempFilename (appendValue + 1)
         | (mime, attachmentb64) # _ \<Rightarrow>
             if attachmentb64 = b64 then Exit tempFilename
             else Again (filename @ ''-'' @ string_of_nat appendValue @ filetype)
                    (appendValue + 1))
      else Exit tempFilename)"

text \<open>The loop may run forever; \<open>None\<close> is not returning.\<close>

partial_function (option) collision_loop ::
  "attachment_store \<Rightarrow> string \<Rightarrow> string \<Rightarrow> string \<Rightarrow> string \<Rightarrow> nat \<Rightarrow> string option" where
  "collision_loop startingAttachments b64 filename filetype tempFilename appendValue =
     (case collision_step startingAttachments b64 filename filetype tempFilename appendValue of
        Exit settled \<Rightarrow> Some settled
      | Again tempFilename' appendValue' \<Rightarrow>
          collision_loop startingAttachments b64 filename filetype tempFilename' appendValue')"

declare collision_loop.simps [code]

text \<open>
  \<^verbatim>\<open>buildAttachment(b64, cell, filename, filetype, startingAttachments)\<close>. The result
  is \<open>None\<close> when the loop does not end, \<open>Some (Inl TypeError)\<close> when the \<^verbatim>\<open>in\<close>
  operator is applied to an undefined \<^verbatim>\<open>startingAttachments\<close>, and
  \<open>Some (Inr result)\<close> when the function returns. The loop reads
  \<^verbatim>\<open>startingAttachments\<close>; the write of line 142 goes to the cell's own
  \<^verbatim>\<open>custom.attachments\<close> object. The copy \<^verbatim>\<open>{ ...cell.metadata }\<close> is shallow, so
  the source also changes the cell's \<^verbatim>\<open>custom\<close> object in place; the model returns
  the metadata after the call and keeps the cell as it was before it.
\<close>

definition buildAttachment ::
  "string \<Rightarrow> 'v notebook_cell \<Rightarrow> string \<Rightarrow> string \<Rightarrow> attachment_store option
     \<Rightarrow> (error + 'v attachment_result) option" where
  "buildAttachment b64 cell filename filetype startingAttachments =
     (let outputMetadata = cell_metadata cell;
          tempFilename = filename @ filetype
      in case custom outputMetadata of
           None \<Rightarrow>
             Some (Inr \<lparr>out_metadata = outputMetadata\<lparr>custom := Some
                          \<lparr>attachments = Some [(tempFilename, [(''image/png'', b64)])],
                           custom_other = []\<rparr>\<rparr>,
                        out_filename = tempFilename\<rparr>)
         | Some cust \<Rightarrow>
             (case attachments cust of
                None \<Rightarrow>
                  Some (Inr \<lparr>out_metadata = outputMetadata\<lparr>custom := Some
                               (cust\<lparr>attachments :=
                                  Some [(tempFilename, [(''image/png'', b64)])]\<rparr>)\<rparr>,
                             out_filename = tempFilename\<rparr>)
              | Some store \<Rightarrow>
                  (case startingAttachments of
                     None \<Rightarrow> Some (Inl TypeError)
                   | Some starting \<Rightarrow>
                       (case collision_loop starting b64 filename filetype tempFilename 2 of
                          None \<Rightarrow> None
                        | Some settled \<Rightarrow>
                            Some (Inr \<lparr>out_metadata = outputMetadata\<lparr>custom := Some
                                         (cust\<lparr>attachments := Some
                                            (AList.update settled [(''image/png'', b64)]
                                               store)\<rparr>)\<rparr>,
                                       out_filename = settled\<rparr>)))))"

text \<open>
  The expression \<^verbatim>\<open>currentCell.metadata.custom?.attachments\<close> of line 188, which is
  what the only caller passes as \<^verbatim>\<open>startingAttachments\<close>.
\<close>

definition cell_attachments :: "'v notebook_cell \<Rightarrow> attachment_store option" where
  "cell_attachments cell =
     (case custom (cell_metadata cell) of None \<Rightarrow> None | Some cust \<Rightarrow> attachments cust)"

definition result_attachments :: "'v attachment_result \<Rightarrow> attachment_store option" where
  "result_attachments r =
     (case custom (out_metadata r) of None \<Rightarrow> None | Some cust \<Rightarrow> attachments cust)"


section \<open>Building the edit\<close>

text \<open>
  What \<^verbatim>\<open>buildImageMarkdown\<close> reads from the host: the transfer payload
  (\<^verbatim>\<open>dataTransfer.get(mime)\<close>, \<^verbatim>\<open>item.asFile()\<close>, the file's \<^verbatim>\<open>name\<close> and the
  already resolved bytes of \<^verbatim>\<open>data()\<close>) and the open notebooks. An undefined value
  is \<open>None\<close>. A \<^verbatim>\<open>Uint8Array\<close> is an object and therefore truthy even when empty, and
  a string is falsy exactly when it is empty.
\<close>

record data_transfer_file =
  file_name :: string
  file_data :: "byte list"

record data_transfer_item =
  asFile :: "data_transfer_file option"

type_synonym data_transfer = "string \<Rightarrow> data_transfer_item option"

datatype snippet_part = Text string | Placeholder string

record 'v notebook_edit =
  edit_cell_index :: nat
  edit_metadata :: "'v cell_metadata"

record 'v markdown_result =
  snippet :: "snippet_part list"
  edit :: "(uri \<times> 'v notebook_edit list) list"

text \<open>
  \<^verbatim>\<open>String.prototype.lastIndexOf\<close> for a one-character search string: the greatest
  index at which the character occurs, or \<open>-1\<close>.
\<close>

fun lastIndexOf :: "string \<Rightarrow> char \<Rightarrow> int" where
  "lastIndexOf [] ch = - 1"
| "lastIndexOf (x # xs) ch =
     (let r = lastIndexOf xs ch
      in if 0 \<le> r then r + 1 else if x = ch then 0 else - 1)"

text \<open>
  \<^verbatim>\<open>String.prototype.slice(start, end)\<close>: a negative index counts from the end of the
  string, and both indices are clamped to the string. \<^verbatim>\<open>slice(start)\<close> runs to the
  end of the string.
\<close>

definition string_slice :: "string \<Rightarrow> int \<Rightarrow> int \<Rightarrow> string" where
  "string_slice s start end =
     (let len = int (length s);
          from = (if start < 0 then max (len + start) 0 else min start len);
          to = (if end < 0 then max (len + end) 0 else min end len)
      in take (nat (to - from)) (drop (nat from) s))"

definition string_slice_from :: "string \<Rightarrow> int \<Rightarrow> string" where
  "string_slice_from s start = string_slice s start (int (length s))"

text \<open>
  \<^verbatim>\<open>getCellFromCellDocument\<close>: the first cell, over the notebooks whose path is the
  document's path, whose document is the given one.
\<close>

fun getCellFromCellDocument ::
  "'v notebook_document list \<Rightarrow> text_document \<Rightarrow> 'v notebook_cell option" where
  "getCellFromCellDocument [] cellDocument = None"
| "getCellFromCellDocument (notebook # notebooks) cellDocument =
     (if uri_path (notebook_uri notebook) = uri_path (document_uri cellDocument) then
        (case find (\<lambda>cell. cell_document cell = cellDocument) (getCells notebook) of
           Some cell \<Rightarrow> Some cell
         | None \<Rightarrow> getCellFromCellDocument notebooks cellDocument)
      else getCellFromCellDocument notebooks cellDocument)"

text \<open>
  \<^verbatim>\<open>buildImageMarkdown(dataTransfer, document)\<close>, with the open notebooks
  (\<^verbatim>\<open>vscode.workspace.notebookDocuments\<close>) as a parameter. \<open>Some (Inr None)\<close> is
  returning \<^verbatim>\<open>undefined\<close>, that is, no edit; \<open>Some (Inr (Some r))\<close> is returning the
  snippet and the edit. The snippet is the list of the \<^verbatim>\<open>appendText\<close> and
  \<^verbatim>\<open>appendPlaceholder\<close> calls; the workspace edit is the list of its entries.
\<close>

definition buildImageMarkdown ::
  "'v notebook_document list \<Rightarrow> data_transfer \<Rightarrow> text_document
     \<Rightarrow> (error + 'v markdown_result option) option" where
  "buildImageMarkdown notebookDocuments dataTransfer document =
     (case dataTransfer ''image/png'' of
        None \<Rightarrow> Some (Inr None)
      | Some dataItem \<Rightarrow>
          (case asFile dataItem of
             None \<Rightarrow> Some (Inr None)
           | Some file \<Rightarrow>
               (let fileDataAsUint8 = file_data file;
                    givenFilename = file_name file
                in if givenFilename = [] then Some (Inr None)
                   else
                     (let separatorIndex = lastIndexOf givenFilename (CHR ''.'');
                          filename = string_slice givenFilename 0 separatorIndex;
                          filetype = string_slice_from givenFilename separatorIndex
                      in if filename = [] \<or> filetype = [] then Some (Inr None)
                         else
                           (case getCellFromCellDocument notebookDocuments document of
                              None \<Rightarrow> Some (Inr None)
                            | Some currentCell \<Rightarrow>
                                (let notebookUri = cell_notebook_uri currentCell;
                                     b64string = encodeBase64 fileDataAsUint8 True False;
                                     startingAttachments = cell_attachments currentCell
                                 in case buildAttachment b64string currentCell filename
                                           filetype startingAttachments of
                                      None \<Rightarrow> None
                                    | Some (Inl e) \<Rightarrow> Some (Inl e)
                                    | Some (Inr newAttachment) \<Rightarrow>
                                        Some (Inr (Some
                                          \<lparr>snippet =
                                             [Text ''!['', Placeholder givenFilename,
                                              Text (''](attachment:'' @
                                                    out_filename newAttachment @ '')'')],
                                           edit =
                                             [(notebookUri,
                                               [\<lparr>edit_cell_index = cell_index currentCell,
                                                 edit_metadata =
                                                   out_metadata newAttachment\<rparr>])]\<rparr>))))))))"


section \<open>Auxiliary notions for the statements\<close>

text \<open>
  The record stored under a name in a store that may be absent: an absent store has no
  keys.
\<close>

definition lookup_attachment :: "attachment_store option \<Rightarrow> string \<Rightarrow> attachment_record option" where
  "lookup_attachment store name = (case store of None \<Rightarrow> None | Some s \<Rightarrow> map_of s name)"

text \<open>
  Test data: a cell of a notebook \<^verbatim>\<open>/nb.ipynb\<close> whose metadata has a \<^verbatim>\<open>custom\<close> object
  holding the given attachments and nothing else, and a transfer payload with one
  \<^verbatim>\<open>image/png\<close> file.
\<close>

definition example_uri :: uri where
  "example_uri = \<lparr>uri_scheme = ''file'', uri_path = ''/nb.ipynb''\<rparr>"

definition example_document :: text_document where
  "example_document = \<lparr>document_id = 0, document_uri = example_uri\<rparr>"

definition example_metadata :: "attachment_store option \<Rightarrow> unit cell_metadata" where
  "example_metadata store =
     \<lparr>custom = Some \<lparr>attachments = store, custom_other = []\<rparr>, metadata_other = []\<rparr>"

definition example_cell :: "attachment_store option \<Rightarrow> unit notebook_cell" where
  "example_cell store =
     \<lparr>cell_index = 0, cell_document = example_document, cell_notebook_uri = example_uri,
      cell_metadata = example_metadata store\<rparr>"

definition example_notebooks :: "unit notebook_document list" where
  "example_notebooks = [\<lparr>notebook_uri = example_uri, getCells = [example_cell None]\<rparr>]"

definition example_notebooks_with :: "attachment_store option \<Rightarrow> unit notebook_document list" where
  "example_notebooks_with store =
     [\<lparr>notebook_uri = example_uri, getCells = [example_cell store]\<rparr>]"

definition example_transfer :: "string \<Rightarrow> byte list \<Rightarrow> data_transfer" where
  "example_transfer name bytes =
     (\<lambda>mime. if mime = ''image/png''
        then Some \<lparr>asFile = Some \<lparr>file_name = name, file_data = bytes\<rparr>\<rparr> else None)"


section \<open>Properties of the encoder\<close>

subsection \<open>The loop computes the recursion over the list\<close>

lemma drop_eq_ConsD:
  "drop i xs = y # ys \<Longrightarrow> xs ! i = y \<and> drop (Suc i) xs = ys \<and> i < length xs"
proof -
  assume h: "drop i xs = y # ys"
  have "i < length xs"
    using h by (cases "i < length xs") simp_all
  moreover have "drop (Suc i) xs = tl (drop i xs)"
    by (simp add: drop_Suc tl_drop)
  moreover have "xs ! i = y"
    using h by (rule nth_via_drop)
  ultimately show ?thesis using h by simp
qed

lemma encode_groups_drop:
  "drop i buffer = rest \<Longrightarrow> length rest mod 3 = length buffer mod 3 \<Longrightarrow>
   i \<le> length buffer \<Longrightarrow>
   encode_groups d buffer (length buffer - length buffer mod 3) i out =
     (length buffer - length buffer mod 3, out @ full_groups d rest)"
proof (induction d rest arbitrary: i out rule: full_groups.induct)
  case (1 d a b c rest)
  from drop_eq_ConsD [OF 1(2)]
  have a: "buffer ! i = a" and da: "drop (Suc i) buffer = b # c # rest" by simp_all
  from drop_eq_ConsD [OF da]
  have b: "buffer ! (i + 1) = b" and db: "drop (Suc (Suc i)) buffer = c # rest" by simp_all
  from drop_eq_ConsD [OF db]
  have c: "buffer ! (i + 2) = c" and d3: "drop (i + 3) buffer = rest"
    and lt3: "i + 2 < length buffer"
    by (simp_all add: numeral_3_eq_3 numeral_2_eq_2)
  have len: "length buffer = i + (3 + length rest)"
    using arg_cong [OF d3, of length] lt3 by simp
  have lt: "i < length buffer - length buffer mod 3"
    using len by presburger
  have m: "length rest mod 3 = length buffer mod 3"
    using 1(3) by (simp; presburger)
  have "encode_groups d buffer (length buffer - length buffer mod 3) (i + 3) (out @ group4 d a b c)
      = (length buffer - length buffer mod 3, (out @ group4 d a b c) @ full_groups d rest)"
    by (rule 1(1) [OF d3 m]) (simp add: len)
  then show ?case
    using lt a b c by (subst encode_groups.simps) (simp add: group4_def Let_def)
next
  case (2 d a b)
  from drop_eq_ConsD [OF 2(1)] have "i < length buffer" by simp
  with arg_cong [OF 2(1), of length] have "length buffer = i + 2" by simp
  moreover from this have "length buffer - length buffer mod 3 = i"
    using 2(2) by simp
  ultimately show ?case by (subst encode_groups.simps) simp
next
  case (3 d a)
  from drop_eq_ConsD [OF 3(1)] have "i < length buffer" by simp
  with arg_cong [OF 3(1), of length] have "length buffer = i + 1" by simp
  moreover from this have "length buffer - length buffer mod 3 = i"
    using 3(2) by simp
  ultimately show ?case by (subst encode_groups.simps) simp
next
  case (4 d)
  then have "length buffer = i" by simp
  then show ?case
    using 4 by (subst encode_groups.simps) simp
qed

lemma encode_groups_all:
  "encode_groups d buffer (length buffer - length buffer mod 3) 0 [] =
     (length buffer - length buffer mod 3, full_groups d buffer)"
  using encode_groups_drop [of 0 buffer buffer d "[]"] by simp

lemma full_groups_tail:
  "full_groups d xs @
     (case drop (length xs - length xs mod 3) xs of
        [a] \<Rightarrow> tail1 d padded a | [a, b] \<Rightarrow> tail2 d padded a b | _ \<Rightarrow> [])
   = encode_list d padded xs"
proof (induction d padded xs rule: encode_list.induct)
  case (1 d padded a b c rest)
  have "length (a # b # c # rest) - length (a # b # c # rest) mod 3
      = Suc (Suc (Suc (length rest - length rest mod 3)))"
    by (simp; presburger)
  then show ?case using 1 by simp
qed simp_all

lemma encodeBase64_list:
  "encodeBase64 buffer padded urlSafe = encode_list (dictionary_of urlSafe) padded buffer"
proof -
  let ?k = "length buffer - length buffer mod 3"
  let ?d = "dictionary_of urlSafe"
  have eg: "encode_groups ?d buffer ?k 0 [] = (?k, full_groups ?d buffer)"
    by (rule encode_groups_all)
  consider (r0) "length buffer mod 3 = 0" | (r1) "length buffer mod 3 = 1"
    | (r2) "length buffer mod 3 = 2"
    by linarith
  then show ?thesis
  proof cases
    case r0
    then have "drop ?k buffer = []" by simp
    then show ?thesis
      using r0 full_groups_tail [of ?d buffer padded] eg
      by (simp add: encodeBase64_def dictionary_of_def)
  next
    case r1
    then have l: "length (drop ?k buffer) = 1" by simp
    then obtain x where x: "drop ?k buffer = [x]"
      by (cases "drop ?k buffer") auto
    from drop_eq_ConsD [OF x] have "buffer ! ?k = x" by simp
    then show ?thesis
      using r1 x full_groups_tail [of ?d buffer padded] eg
      by (simp add: encodeBase64_def dictionary_of_def tail1_def Let_def)
  next
    case r2
    then have l: "length (drop ?k buffer) = 2" by simp
    then obtain x y where xy: "drop ?k buffer = [x, y]"
      by (cases "drop ?k buffer"; cases "tl (drop ?k buffer)") auto
    from drop_eq_ConsD [OF xy] have x: "buffer ! ?k = x" and dy: "drop (Suc ?k) buffer = [y]"
      by simp_all
    from drop_eq_ConsD [OF dy] have y: "buffer ! (?k + 1) = y" by simp
    show ?thesis
      using r2 xy x y full_groups_tail [of ?d buffer padded] eg
      by (simp add: encodeBase64_def dictionary_of_def tail2_def Let_def)
  qed
qed

subsection \<open>Sextets and the alphabets\<close>

lemma mask_63: "(63 :: 32 word) = mask 6"
  by (simp add: mask_eq_exp_minus_1)

lemma and_63_less: "unat ((x :: 32 word) AND 63) < 64"
proof -
  have "x AND 63 \<le> 63" by (rule word_and_le1)
  then have "unat (x AND 63) \<le> unat (63 :: 32 word)" by (simp only: word_le_nat_alt)
  then show ?thesis by simp
qed

lemma top_sextet_less: "unat (drop_bit 2 (ucast (a :: byte) :: 32 word)) < 64"
proof -
  have "unat a < 256" using unsigned_less [of a, where 'a = nat] by simp
  moreover have "unat (drop_bit 2 (ucast a :: 32 word)) = drop_bit 2 (take_bit 32 (unat a))"
    by (simp only: unat_drop_bit_eq unsigned_ucast_eq) simp
  ultimately show ?thesis
    by (simp add: drop_bit_eq_div take_bit_nat_eq_self)
qed

lemma length_alphabets [simp]:
  "length base64Alphabet = 64" "length base64UrlSafeAlphabet = 64"
  by (simp_all add: base64Alphabet_def base64UrlSafeAlphabet_def)

lemma length_dictionary_of [simp]: "length (dictionary_of urlSafe) = 64"
  by (simp add: dictionary_of_def)

subsection \<open>Length of the output\<close>

lemma length_group4 [simp]: "length (group4 d a b c) = 4"
  by (simp add: group4_def)

lemma length_encode_list_padded:
  "length (encode_list d True xs) = (length xs + 2) div 3 * 4"
proof (induction d True xs rule: encode_list.induct)
  case (1 d a b c rest)
  have "(length (a # b # c # rest) + 2) div 3 = Suc ((length rest + 2) div 3)"
    by simp
  with 1 show ?case by simp
qed (simp_all add: tail1_def tail2_def)

lemma length_encode_list_unpadded:
  "length (encode_list d False xs) =
     length xs div 3 * 4 + (if length xs mod 3 = 0 then 0 else length xs mod 3 + 1)"
proof (induction d False xs rule: encode_list.induct)
  case (1 d a b c rest)
  have "length (a # b # c # rest) div 3 = Suc (length rest div 3)"
    and "length (a # b # c # rest) mod 3 = length rest mod 3"
    by simp_all
  with 1 show ?case by simp
qed (simp_all add: tail1_def tail2_def)

subsection \<open>The URL-safe alphabet\<close>

lemma map_url_char_alphabet: "map url_char base64Alphabet = base64UrlSafeAlphabet"
  by (simp add: base64Alphabet_def base64UrlSafeAlphabet_def url_char_def)

lemma url_nth: "i < 64 \<Longrightarrow> base64UrlSafeAlphabet ! i = url_char (base64Alphabet ! i)"
  using nth_map [of i base64Alphabet url_char] by (simp add: map_url_char_alphabet)

lemma url_char_pad [simp]: "url_char (CHR ''='') = CHR ''=''"
  by (simp add: url_char_def)

lemma encode_list_url:
  "encode_list base64UrlSafeAlphabet padded xs = map url_char (encode_list base64Alphabet padded xs)"
  by (induction base64Alphabet padded xs rule: encode_list.induct)
     (simp_all add: group4_def tail1_def tail2_def url_nth and_63_less top_sextet_less)

lemma url_char_not_plus_slash: "url_char ch \<noteq> CHR ''+'' \<and> url_char ch \<noteq> CHR ''/''"
  by (simp add: url_char_def)

subsection \<open>Decoding what was encoded\<close>

lemma index_of_nth: "distinct xs \<Longrightarrow> i < length xs \<Longrightarrow> index_of (xs ! i) xs = Some i"
proof (induction xs arbitrary: i)
  case Nil
  then show ?case by simp
next
  case (Cons x xs)
  show ?case
  proof (cases i)
    case 0
    then show ?thesis by simp
  next
    case (Suc j)
    with Cons.prems have "xs ! j \<in> set xs" "x \<notin> set xs" by simp_all
    then have "xs ! j \<noteq> x" by auto
    with Suc Cons show ?thesis by simp
  qed
qed

lemma distinct_base64Alphabet: "distinct base64Alphabet"
  by (simp add: base64Alphabet_def)

lemma decode_symbol_nth:
  "unat (s :: 32 word) < 64 \<Longrightarrow> decode_symbol (base64Alphabet ! unat s) = Some s"
  by (simp add: decode_symbol_def index_of_nth distinct_base64Alphabet)

lemma decode_symbol_pad [simp]: "decode_symbol (CHR ''='') = None"
  by (simp add: decode_symbol_def base64Alphabet_def)

lemma nth_alphabet_not_pad: "i < 64 \<Longrightarrow> base64Alphabet ! i \<noteq> CHR ''=''"
proof -
  assume "i < 64"
  then have "base64Alphabet ! i \<in> set base64Alphabet" by simp
  moreover have "CHR ''='' \<notin> set base64Alphabet" by (simp add: base64Alphabet_def)
  ultimately show ?thesis by metis
qed

lemma Suc_Suc_diff_2: "2 \<le> n \<Longrightarrow> Suc (Suc (n - 2)) = n"
  by simp

lemma Suc_Suc_diff_2': "\<not> n < 2 \<Longrightarrow> Suc (Suc (n - 2)) = n"
  by simp

lemma not_bit_byte: "\<not> bit (w :: byte) (8 + n)"
  by (auto dest: bit_imp_le_length)

lemma unpack_quad:
  fixes a b c :: byte
  defines "n \<equiv> push_bit 18 (drop_bit 2 (ucast a :: 32 word))
       OR push_bit 12 ((push_bit 4 (ucast a) OR drop_bit 4 (ucast b)) AND 63)
       OR push_bit 6 ((push_bit 2 (ucast b) OR drop_bit 6 (ucast c)) AND 63)
       OR (ucast c AND 63)"
  shows "ucast (drop_bit 16 n) = a" and "ucast (drop_bit 8 n) = b" and "ucast n = c"
  unfolding n_def mask_63
  by (rule bit_word_eqI, auto simp add: bit_simps Suc_Suc_diff_2 Suc_Suc_diff_2' not_bit_byte)+

lemma unpack_pad1:
  fixes a b :: byte
  defines "n \<equiv> push_bit 12 (drop_bit 2 (ucast a :: 32 word))
       OR push_bit 6 ((push_bit 4 (ucast a) OR drop_bit 4 (ucast b)) AND 63)
       OR (push_bit 2 (ucast b) AND 63)"
  shows "ucast (drop_bit 10 n) = a" and "ucast (drop_bit 2 n) = b"
  unfolding n_def mask_63
  by (rule bit_word_eqI, auto simp add: bit_simps Suc_Suc_diff_2 Suc_Suc_diff_2' not_bit_byte)+

lemma unpack_pad2:
  fixes a :: byte
  shows "ucast (drop_bit 4 (push_bit 6 (drop_bit 2 (ucast a :: 32 word))
            OR (push_bit 4 (ucast a) AND 63))) = a"
  unfolding mask_63
  by (rule bit_word_eqI) (auto simp add: bit_simps Suc_Suc_diff_2 Suc_Suc_diff_2' not_bit_byte)

lemma decode_quad_group4:
  "group4 base64Alphabet a b c = [c1, c2, c3, c4] \<Longrightarrow>
     decode_quad c1 c2 c3 c4 = Some [a, b, c] \<and> c3 \<noteq> CHR ''='' \<and> c4 \<noteq> CHR ''=''"
  using unpack_quad [of a b c]
  by (auto simp add: group4_def decode_quad_def decode_symbol_nth and_63_less top_sextet_less
        nth_alphabet_not_pad Let_def)

lemma decode_group4_append:
  "decodeBase64Standard (group4 base64Alphabet a b c @ s) =
     map_option ((@) [a, b, c]) (decodeBase64Standard s)"
proof -
  obtain c1 c2 c3 c4 where g: "group4 base64Alphabet a b c = [c1, c2, c3, c4]"
    by (simp add: group4_def)
  from decode_quad_group4 [OF g] show ?thesis
    unfolding g by (cases s) simp_all
qed

lemma decode_tail1: "decodeBase64Standard (tail1 base64Alphabet True a) = Some [a]"
  using unpack_pad2 [of a]
  by (simp add: tail1_def decode_pad2_def decode_symbol_nth and_63_less top_sextet_less)

lemma decode_tail2: "decodeBase64Standard (tail2 base64Alphabet True a b) = Some [a, b]"
  using unpack_pad1 [of a b]
  by (simp add: tail2_def decode_pad1_def decode_symbol_nth and_63_less top_sextet_less
        nth_alphabet_not_pad Let_def)

lemma decode_encode_list:
  "decodeBase64Standard (encode_list base64Alphabet True xs) = Some xs"
  by (induction base64Alphabet True xs rule: encode_list.induct)
     (simp_all add: decode_group4_append decode_tail1 decode_tail2)


section \<open>Properties of the attachment namer\<close>

subsection \<open>Decimal numerals are injective\<close>

lemma digit_cases:
  "d < 10 \<Longrightarrow> d = 0 \<or> d = 1 \<or> d = 2 \<or> d = 3 \<or> d = 4 \<or> d = 5 \<or> d = 6 \<or> d = 7 \<or> d = 8 \<or> d = (9::nat)"
  by arith

lemma digit_char_inj: "d < 10 \<Longrightarrow> e < 10 \<Longrightarrow> digit_char d = digit_char e \<Longrightarrow> d = e"
  using digit_cases [of d] digit_cases [of e]
  by (auto simp add: digit_char_def)

lemma string_of_nat_not_Nil: "string_of_nat n \<noteq> []"
  by (subst string_of_nat.simps) simp

lemma string_of_nat_inj: "string_of_nat n = string_of_nat m \<Longrightarrow> n = m"
proof (induction n arbitrary: m rule: string_of_nat.induct)
  case (1 n)
  show ?case
  proof (cases "n < 10")
    case n: True
    show ?thesis
    proof (cases "m < 10")
      case True
      with n 1(2) show ?thesis
        by (simp add: string_of_nat.simps [of n] string_of_nat.simps [of m] digit_char_inj)
    next
      case False
      with n 1(2) have "string_of_nat (m div 10) = []"
        by (simp add: string_of_nat.simps [of n] string_of_nat.simps [of m])
      then show ?thesis by (simp add: string_of_nat_not_Nil)
    qed
  next
    case n: False
    show ?thesis
    proof (cases "m < 10")
      case True
      with n 1(2) have "string_of_nat (n div 10) = []"
        by (simp add: string_of_nat.simps [of n] string_of_nat.simps [of m])
      then show ?thesis by (simp add: string_of_nat_not_Nil)
    next
      case False
      with n 1(2) have eq: "string_of_nat (n div 10) = string_of_nat (m div 10)"
        and dg: "digit_char (n mod 10) = digit_char (m mod 10)"
        by (simp_all add: string_of_nat.simps [of n] string_of_nat.simps [of m])
      from 1(1) [OF n eq] have "n div 10 = m div 10" .
      moreover from dg have "n mod 10 = m mod 10"
        by (intro digit_char_inj) simp_all
      ultimately show ?thesis by (metis div_mult_mod_eq)
    qed
  qed
qed

lemma candidate_inj:
  "inj (\<lambda>n. filename @ ''-'' @ string_of_nat n @ filetype)"
  by (rule injI) (simp add: string_of_nat_inj)

subsection \<open>The collision loop\<close>

lemma collision_loop_Exit:
  "collision_step sa b64 filename filetype temp n = Exit settled \<Longrightarrow>
     collision_loop sa b64 filename filetype temp n = Some settled"
  by (subst collision_loop.simps) simp

lemma collision_loop_Again:
  "collision_step sa b64 filename filetype temp n = Again temp' n' \<Longrightarrow>
     collision_loop sa b64 filename filetype temp n =
       collision_loop sa b64 filename filetype temp' n'"
  by (subst collision_loop.simps) simp

lemma has_property_own:
  "map_of sa name = Some entries \<Longrightarrow> has_property sa name"
proof -
  assume "map_of sa name = Some entries"
  then have "(name, entries) \<in> set sa" by (rule map_of_SomeD)
  then have "name \<in> fst ` set sa" by force
  then show ?thesis by (simp add: has_property_def)
qed

lemma has_property_not_own:
  "map_of sa name = None \<Longrightarrow> has_property sa name \<longleftrightarrow> name \<in> set object_prototype_keys"
  by (simp add: has_property_def map_of_eq_None_iff)

lemma collision_step_own:
  "map_of sa temp = Some entries \<Longrightarrow>
     collision_step sa b64 filename filetype temp n =
       (case entries of
          [] \<Rightarrow> Again temp (n + 1)
        | (mime, payload) # _ \<Rightarrow>
            if payload = b64 then Exit temp
            else Again (filename @ ''-'' @ string_of_nat n @ filetype) (n + 1))"
  by (simp add: collision_step_def has_property_own property_entries_def)

lemma collision_step_free:
  "map_of sa temp = None \<Longrightarrow> temp \<notin> set object_prototype_keys \<Longrightarrow>
     collision_step sa b64 filename filetype temp n = Exit temp"
  by (simp add: collision_step_def has_property_not_own)

lemma collision_step_inherited:
  "map_of sa temp = None \<Longrightarrow> temp \<in> set object_prototype_keys \<Longrightarrow>
     collision_step sa b64 filename filetype temp n = Again temp (n + 1)"
  by (simp add: collision_step_def has_property_not_own property_entries_def)

lemma no_dash_in_prototype_keys:
  "key \<in> set object_prototype_keys \<Longrightarrow> CHR ''-'' \<notin> set key"
  by (auto simp add: object_prototype_keys_def)

lemma candidate_not_inherited:
  "filename @ ''-'' @ digits @ filetype \<notin> set object_prototype_keys"
  using no_dash_in_prototype_keys [of "filename @ ''-'' @ digits @ filetype"] by auto

lemma collision_step_cases:
  assumes "\<And>name entries. map_of sa name = Some entries \<Longrightarrow> entries \<noteq> []"
    and "temp \<notin> set object_prototype_keys"
  shows "collision_step sa b64 filename filetype temp n = Exit temp \<or>
         collision_step sa b64 filename filetype temp n =
           Again (filename @ ''-'' @ string_of_nat n @ filetype) (n + 1)"
proof (cases "map_of sa temp")
  case None
  with assms(2) show ?thesis by (simp add: collision_step_free)
next
  case (Some entries)
  with assms have "entries \<noteq> []" by blast
  then obtain mime payload rest where "entries = (mime, payload) # rest"
    by (cases entries) auto
  with Some show ?thesis by (simp add: collision_step_own)
qed

lemma collision_loop_reaches:
  assumes ne: "\<And>name entries. map_of sa name = Some entries \<Longrightarrow> entries \<noteq> []"
    and free: "map_of sa (filename @ ''-'' @ string_of_nat m @ filetype) = None"
  shows "n \<le> m \<Longrightarrow> temp \<notin> set object_prototype_keys \<Longrightarrow>
    \<exists>settled. collision_loop sa b64 filename filetype temp n = Some settled"
proof (induction "m - n" arbitrary: n temp)
  case 0
  then have nm: "n = m" by simp
  from collision_step_cases [of sa temp b64 filename filetype n, OF ne 0(3)] show ?case
  proof
    assume "collision_step sa b64 filename filetype temp n = Exit temp"
    then show ?thesis by (simp add: collision_loop_Exit)
  next
    let ?c = "filename @ ''-'' @ string_of_nat n @ filetype"
    assume "collision_step sa b64 filename filetype temp n = Again ?c (n + 1)"
    then have "collision_loop sa b64 filename filetype temp n =
        collision_loop sa b64 filename filetype ?c (n + 1)"
      by (rule collision_loop_Again)
    moreover have "collision_step sa b64 filename filetype ?c (n + 1) = Exit ?c"
      using free nm by (intro collision_step_free candidate_not_inherited) simp
    ultimately show ?thesis by (simp add: collision_loop_Exit)
  qed
next
  case (Suc k)
  from collision_step_cases [of sa temp b64 filename filetype n, OF ne Suc(4)] show ?case
  proof
    assume "collision_step sa b64 filename filetype temp n = Exit temp"
    then show ?thesis by (simp add: collision_loop_Exit)
  next
    let ?c = "filename @ ''-'' @ string_of_nat n @ filetype"
    assume "collision_step sa b64 filename filetype temp n = Again ?c (n + 1)"
    then have "collision_loop sa b64 filename filetype temp n =
        collision_loop sa b64 filename filetype ?c (n + 1)"
      by (rule collision_loop_Again)
    moreover have "\<exists>settled. collision_loop sa b64 filename filetype ?c (n + 1) = Some settled"
      using Suc(2,3) by (intro Suc(1) candidate_not_inherited) simp_all
    ultimately show ?thesis by simp
  qed
qed

lemma free_candidate:
  "\<exists>m. 2 \<le> m \<and> map_of sa (filename @ ''-'' @ string_of_nat m @ filetype) = None"
proof (rule ccontr)
  let ?c = "\<lambda>n. filename @ ''-'' @ string_of_nat n @ filetype"
  let ?S = "{2 .. length sa + 2}"
  assume "\<not> ?thesis"
  then have "\<forall>m \<in> ?S. ?c m \<in> fst ` set sa"
    by (auto simp add: map_of_eq_None_iff)
  then have "?c ` ?S \<subseteq> fst ` set sa" by blast
  then have "card (?c ` ?S) \<le> card (fst ` set sa)"
    by (intro card_mono) simp_all
  moreover have "card (?c ` ?S) = card ?S"
    by (intro card_image inj_on_subset [OF candidate_inj]) simp
  moreover have "card (fst ` set sa) \<le> length sa"
    by (metis card_image_le card_length le_trans List.finite_set)
  ultimately show False by simp
qed

text \<open>
  The loop ends whenever no stored record is empty and the first candidate is not the
  name of an inherited property; the later candidates contain a \<^verbatim>\<open>-\<close> and are never
  such a name.
\<close>

lemma collision_loop_terminates:
  assumes "\<And>name entries. map_of sa name = Some entries \<Longrightarrow> entries \<noteq> []"
    and "temp \<notin> set object_prototype_keys"
  shows "\<exists>settled. collision_loop sa b64 filename filetype temp 2 = Some settled"
proof -
  obtain m where "2 \<le> m" "map_of sa (filename @ ''-'' @ string_of_nat m @ filetype) = None"
    using free_candidate by blast
  with assms show ?thesis by (intro collision_loop_reaches [where m = m]) blast+
qed

lemma collision_step_Exit_settled:
  assumes "collision_step sa b64 filename filetype temp n = Exit settled"
  shows "settled = temp \<and>
    (map_of sa temp = None \<or> (\<exists>mime rest. map_of sa temp = Some ((mime, b64) # rest)))"
proof (cases "map_of sa temp")
  case None
  with assms show ?thesis
    by (auto simp add: collision_step_def property_entries_def split: if_splits)
next
  case (Some entries)
  with assms show ?thesis
    by (auto simp add: collision_step_own split: list.splits if_splits)
qed

lemma collision_loop_settled:
  assumes "collision_loop sa b64 filename filetype temp n = Some settled"
  shows "map_of sa settled = None \<or> (\<exists>mime rest. map_of sa settled = Some ((mime, b64) # rest))"
proof (rule collision_loop.raw_induct
    [where P = "\<lambda>sa b64 filename filetype temp n settled.
       map_of sa settled = None \<or> (\<exists>mime rest. map_of sa settled = Some ((mime, b64) # rest))",
     OF _ assms], goal_cases)
  case (1 loop sa b64 filename filetype temp n settled)
  show ?case
  proof (cases "collision_step sa b64 filename filetype temp n")
    case (Exit name)
    with 1(2) have "name = settled" by simp
    with Exit collision_step_Exit_settled [of sa b64 filename filetype temp n settled]
    show ?thesis by auto
  next
    case (Again temp' n')
    with 1(2) have "loop sa b64 filename filetype temp' n' = Some settled" by simp
    then show ?thesis by (rule 1(1))
  qed
qed

text \<open>
  A candidate that is in the object with no entries (an empty record, or a name that is
  only inherited) is never left: the loop does not return.
\<close>

lemma collision_loop_not_stuck:
  assumes "collision_loop sa b64 filename filetype temp n = Some settled"
  shows "\<not> (has_property sa temp \<and> property_entries sa temp = [])"
proof (rule collision_loop.raw_induct
    [where P = "\<lambda>sa b64 filename filetype temp n settled.
       \<not> (has_property sa temp \<and> property_entries sa temp = [])",
     OF _ assms], goal_cases)
  case (1 loop sa b64 filename filetype temp n settled)
  show ?case
  proof
    assume e: "has_property sa temp \<and> property_entries sa temp = []"
    with 1(2) have "loop sa b64 filename filetype temp (n + 1) = Some settled"
      by (simp add: collision_step_def)
    from 1(1) [OF this] e show False by simp
  qed
qed

lemma collision_loop_stuck:
  "has_property sa temp \<Longrightarrow> property_entries sa temp = [] \<Longrightarrow>
     collision_loop sa b64 filename filetype temp n = None"
  using collision_loop_not_stuck [of sa b64 filename filetype temp n]
  by (cases "collision_loop sa b64 filename filetype temp n") auto


section \<open>The claims\<close>

subsection \<open>Base64 encoder\<close>

text \<open>
  C2. For every byte sequence \<open>b\<close>, decoding \<open>encodeBase64 b\<close> with the default
  arguments (padded, standard alphabet) with the reference decoder for the standard
  alphabet gives \<open>b\<close> back.
\<close>

theorem encodeBase64_roundtrip:
  "decodeBase64Standard (encodeBase64 b True False) = Some b"
  by (simp add: encodeBase64_list dictionary_of_def decode_encode_list)

theorem encodeBase64_roundtrip_witness:
  "decodeBase64Standard (encodeBase64 [77, 97, 110, 251, 255] True False)
     = Some [77, 97, 110, 251, 255]"
  by (rule encodeBase64_roundtrip)

text \<open>
  C8. The encoder is a total function (it has no error result); the empty byte
  sequence is encoded as the empty string; a sequence of \<open>n\<close> bytes is encoded in
  \<open>ceil (n / 3) * 4\<close> characters when padded and in
  \<open>floor (n / 3) * 4 + (if n mod 3 = 0 then 0 else n mod 3 + 1)\<close> characters when not.
\<close>

theorem encodeBase64_length:
  "encodeBase64 [] padded urlSafe = [] \<and>
   length (encodeBase64 b True urlSafe) = (length b + 2) div 3 * 4 \<and>
   length (encodeBase64 b False urlSafe) =
     length b div 3 * 4 + (if length b mod 3 = 0 then 0 else length b mod 3 + 1)"
  by (simp add: encodeBase64_list length_encode_list_padded length_encode_list_unpadded)

theorem encodeBase64_length_witness:
  "encodeBase64 [] True False = [] \<and>
   length (encodeBase64 [77, 97, 110, 251] True False) = 8 \<and>
   length (encodeBase64 [77, 97, 110, 251] False False) = 6"
  using encodeBase64_length [of True False "[77, 97, 110, 251]"] by simp

text \<open>
  C9. For every byte sequence and padding choice, the URL-safe output contains neither
  \<open>+\<close> nor \<open>/\<close>, and it is the standard output with every \<open>+\<close> replaced by \<open>-\<close>
  and every \<open>/\<close> replaced by \<open>_\<close>, position by position: all other characters are
  the same.
\<close>

theorem encodeBase64_urlSafe:
  "CHR ''+'' \<notin> set (encodeBase64 b padded True) \<and>
   CHR ''/'' \<notin> set (encodeBase64 b padded True) \<and>
   encodeBase64 b padded True = map url_char (encodeBase64 b padded False)"
proof -
  have eq: "encodeBase64 b padded True = map url_char (encodeBase64 b padded False)"
    by (simp add: encodeBase64_list dictionary_of_def encode_list_url)
  have "ch \<notin> set (map url_char s)" if "ch = CHR ''+'' \<or> ch = CHR ''/''" for ch s
    using that url_char_not_plus_slash by (auto simp add: image_iff)
  with eq show ?thesis by simp
qed

theorem encodeBase64_urlSafe_witness:
  "encodeBase64 [251, 255, 191, 77] True False = ''+/+/TQ=='' \<and>
   encodeBase64 [251, 255, 191, 77] True True = ''-_-_TQ=='' \<and>
   CHR ''+'' \<notin> set (encodeBase64 [251, 255, 191, 77] True True)"
proof -
  have std: "encodeBase64 [251, 255, 191, 77] True False = ''+/+/TQ==''"
    by (simp add: encodeBase64_list dictionary_of_def group4_def tail1_def base64Alphabet_def)
  from encodeBase64_urlSafe [of "[251, 255, 191, 77]" True] show ?thesis
    unfolding std by (simp add: url_char_def)
qed

subsection \<open>Attachment namer\<close>

text \<open>
  C1. With the attachments \<^verbatim>\<open>{"img.png": {"image/png": "X"}}\<close>, the namer called
  with \<^verbatim>\<open>img\<close>, \<^verbatim>\<open>.png\<close> and the payload \<^verbatim>\<open>X\<close> returns the name \<^verbatim>\<open>img.png\<close>;
  called with the payload \<^verbatim>\<open>Y\<close> it returns \<^verbatim>\<open>img-2.png\<close>; and with the
  attachments then holding both names, a third payload \<^verbatim>\<open>Z\<close> gets \<^verbatim>\<open>img-3.png\<close>.
\<close>

theorem buildAttachment_examples:
  "buildAttachment ''X'' (example_cell (Some [(''img.png'', [(''image/png'', ''X'')])]))
       ''img'' ''.png'' (Some [(''img.png'', [(''image/png'', ''X'')])])
     = Some (Inr \<lparr>out_metadata = example_metadata
                     (Some [(''img.png'', [(''image/png'', ''X'')])]),
                  out_filename = ''img.png''\<rparr>) \<and>
   buildAttachment ''Y'' (example_cell (Some [(''img.png'', [(''image/png'', ''X'')])]))
       ''img'' ''.png'' (Some [(''img.png'', [(''image/png'', ''X'')])])
     = Some (Inr \<lparr>out_metadata = example_metadata
                     (Some [(''img.png'', [(''image/png'', ''X'')]),
                            (''img-2.png'', [(''image/png'', ''Y'')])]),
                  out_filename = ''img-2.png''\<rparr>) \<and>
   buildAttachment ''Z''
       (example_cell (Some [(''img.png'', [(''image/png'', ''X'')]),
                            (''img-2.png'', [(''image/png'', ''Y'')])]))
       ''img'' ''.png''
       (Some [(''img.png'', [(''image/png'', ''X'')]),
              (''img-2.png'', [(''image/png'', ''Y'')])])
     = Some (Inr \<lparr>out_metadata = example_metadata
                     (Some [(''img.png'', [(''image/png'', ''X'')]),
                            (''img-2.png'', [(''image/png'', ''Y'')]),
                            (''img-3.png'', [(''image/png'', ''Z'')])]),
                  out_filename = ''img-3.png''\<rparr>)"
  by (simp add: buildAttachment_def example_cell_def example_metadata_def Let_def
        collision_loop.simps collision_step_def has_property_def property_entries_def
        object_prototype_keys_def string_of_nat.simps digit_char_def)

text \<open>
  C4, as the code has it. When the namer returns, the attachments of the returned
  metadata are the attachments of the cell with the record under the settled name set
  to the single entry \<^verbatim>\<open>{"image/png": b64}\<close>: every other name keeps its record, and
  the record under the settled name is replaced as a whole, so the other MIME entries of
  a record whose name is reused are dropped.
\<close>

theorem buildAttachment_frame:
  assumes "buildAttachment b64 cell filename filetype startingAttachments = Some (Inr r)"
  shows "lookup_attachment (result_attachments r) =
           (lookup_attachment (cell_attachments cell))
             (out_filename r \<mapsto> [(''image/png'', b64)])"
  using assms
  by (auto simp add: buildAttachment_def lookup_attachment_def result_attachments_def
        cell_attachments_def update_conv' Let_def fun_eq_iff
      split: option.splits)

theorem buildAttachment_frame_witness:
  "buildAttachment ''Y''
       (example_cell (Some [(''img.png'', [(''image/png'', ''X''), (''image/jpeg'', ''J'')])]))
       ''img'' ''.png''
       (Some [(''img.png'', [(''image/png'', ''X''), (''image/jpeg'', ''J'')])])
     = Some (Inr \<lparr>out_metadata = example_metadata
                     (Some [(''img.png'', [(''image/png'', ''X''), (''image/jpeg'', ''J'')]),
                            (''img-2.png'', [(''image/png'', ''Y'')])]),
                  out_filename = ''img-2.png''\<rparr>) \<and>
   lookup_attachment
       (result_attachments
          \<lparr>out_metadata = example_metadata
             (Some [(''img.png'', [(''image/png'', ''X''), (''image/jpeg'', ''J'')]),
                    (''img-2.png'', [(''image/png'', ''Y'')])]),
           out_filename = ''img-2.png''\<rparr>) ''img.png''
     = Some [(''image/png'', ''X''), (''image/jpeg'', ''J'')]"
proof -
  let ?S = "[(''img.png'', [(''image/png'', ''X''), (''image/jpeg'', ''J'')])]"
  let ?R = "\<lparr>out_metadata = example_metadata
                     (Some [(''img.png'', [(''image/png'', ''X''), (''image/jpeg'', ''J'')]),
                            (''img-2.png'', [(''image/png'', ''Y'')])]),
                  out_filename = ''img-2.png''\<rparr>"
  have run: "buildAttachment ''Y'' (example_cell (Some ?S)) ''img'' ''.png'' (Some ?S)
      = Some (Inr ?R)"
    by (simp add: buildAttachment_def example_cell_def example_metadata_def Let_def
          collision_loop.simps collision_step_def has_property_def property_entries_def
        object_prototype_keys_def string_of_nat.simps digit_char_def)
  from buildAttachment_frame [OF run]
  have "lookup_attachment (result_attachments ?R) ''img.png''
      = ((lookup_attachment (cell_attachments (example_cell (Some ?S))))
          (''img-2.png'' \<mapsto> [(''image/png'', ''Y'')])) ''img.png''"
    by simp
  then have "lookup_attachment (result_attachments ?R) ''img.png''
      = Some [(''image/png'', ''X''), (''image/jpeg'', ''J'')]"
    by (simp add: lookup_attachment_def cell_attachments_def example_cell_def
          example_metadata_def)
  with run show ?thesis by simp
qed

text \<open>
  C4, as stated, fails: the record \<^verbatim>\<open>{"image/png": "X", "image/jpeg": "J"}\<close> under
  \<^verbatim>\<open>img.png\<close> has the payload \<^verbatim>\<open>X\<close> first, so the name is reused for the payload
  \<^verbatim>\<open>X\<close>, and the record is then overwritten: its \<^verbatim>\<open>image/jpeg\<close> entry is gone from
  the returned metadata.
\<close>

theorem buildAttachment_reuse_drops_entries:
  "lookup_attachment
       (cell_attachments
          (example_cell (Some [(''img.png'', [(''image/png'', ''X''), (''image/jpeg'', ''J'')])])))
       ''img.png''
     = Some [(''image/png'', ''X''), (''image/jpeg'', ''J'')] \<and>
   buildAttachment ''X''
       (example_cell (Some [(''img.png'', [(''image/png'', ''X''), (''image/jpeg'', ''J'')])]))
       ''img'' ''.png''
       (Some [(''img.png'', [(''image/png'', ''X''), (''image/jpeg'', ''J'')])])
     = Some (Inr \<lparr>out_metadata = example_metadata
                     (Some [(''img.png'', [(''image/png'', ''X'')])]),
                  out_filename = ''img.png''\<rparr>)"
  by (simp add: buildAttachment_def example_cell_def example_metadata_def Let_def
        lookup_attachment_def cell_attachments_def
        collision_loop.simps collision_step_def has_property_def property_entries_def)

text \<open>
  C5 says that the loop ends, and the namer returns, on every store none of whose
  records is empty. The code does not return when the first candidate is the name of an
  inherited property that is not an own key: for the file name \<^verbatim>\<open>toString\<close>, which
  line 176 lets through as \<^verbatim>\<open>toStrin\<close> and \<^verbatim>\<open>g\<close>, the test
  \<^verbatim>\<open>"toString" in startingAttachments\<close> holds, \<^verbatim>\<open>Object.entries\<close> of the inherited
  function is empty, the body does nothing, and the same test is made again for ever.
\<close>

theorem buildAttachment_inherited_name_hangs:
  "[] \<notin> snd ` set [(''img.png'', [(''image/png'', ''X'')])] \<and>
   collision_step [(''img.png'', [(''image/png'', ''X'')])] ''AA=='' ''toStrin'' ''g''
       ''toString'' 2 = Again ''toString'' 3 \<and>
   buildAttachment ''AA=='' (example_cell (Some [(''img.png'', [(''image/png'', ''X'')])]))
       ''toStrin'' ''g'' (Some [(''img.png'', [(''image/png'', ''X'')])]) = None \<and>
   buildImageMarkdown (example_notebooks_with (Some [(''img.png'', [(''image/png'', ''X'')])]))
       (example_transfer ''toString'' [0]) example_document = None"
proof -
  let ?S = "[(''img.png'', [(''image/png'', ''X'')])]"
  have own: "map_of ?S ''toString'' = None" by simp
  have inh: "''toString'' \<in> set object_prototype_keys"
    by (simp add: object_prototype_keys_def)
  have step: "collision_step ?S ''AA=='' ''toStrin'' ''g'' ''toString'' 2 = Again ''toString'' 3"
    using collision_step_inherited [OF own inh, of "''AA==''" "''toStrin''" "''g''" 2] by simp
  have "has_property ?S ''toString''" "property_entries ?S ''toString'' = []"
    using inh by (simp_all add: has_property_def property_entries_def)
  then have loop: "collision_loop ?S ''AA=='' ''toStrin'' ''g'' ''toString'' 2 = None"
    by (rule collision_loop_stuck)
  have namer: "buildAttachment ''AA=='' (example_cell (Some ?S)) ''toStrin'' ''g'' (Some ?S) = None"
    using loop by (simp add: buildAttachment_def example_cell_def example_metadata_def Let_def)
  have enc: "encodeBase64 [0] True False = ''AA==''"
    by (simp add: encodeBase64_list dictionary_of_def tail1_def base64Alphabet_def)
  have "buildImageMarkdown (example_notebooks_with (Some ?S))
      (example_transfer ''toString'' [0]) example_document = None"
    using namer
    by (simp add: buildImageMarkdown_def example_notebooks_with_def example_transfer_def
          example_document_def example_uri_def string_slice_def string_slice_from_def
          cell_attachments_def enc Let_def)
       (simp add: example_cell_def example_metadata_def example_document_def example_uri_def)
  with step namer show ?thesis by simp
qed

text \<open>
  C6, as the code has it. When the record under the candidate name has no entries, the
  pass leaves the candidate name as it is, and the update of the \<^verbatim>\<open>for\<close> statement
  still runs: the loop goes on with the same name and \<open>appendValue + 1\<close>.
\<close>

theorem collision_step_empty_record:
  assumes "map_of startingAttachments tempFilename = Some []"
  shows "collision_step startingAttachments b64 filename filetype tempFilename appendValue
           = Again tempFilename (appendValue + 1)"
  using assms by (simp add: collision_step_own)

theorem collision_step_empty_record_witness:
  "map_of [(''a.png'', [(''image/png'', ''X'')]), (''b.png'', [])] ''b.png'' = Some [] \<and>
   collision_step [(''a.png'', [(''image/png'', ''X'')]), (''b.png'', [])]
       ''Y'' ''b'' ''.png'' ''b.png'' 7 = Again ''b.png'' 8"
proof -
  have h: "map_of [(''a.png'', [(''image/png'', ''X'')]), (''b.png'', [])] ''b.png'' = Some []"
    by simp
  from collision_step_empty_record [OF h, of "''Y''" "''b''" "''.png''" 7] h
  show ?thesis by simp
qed

text \<open>
  C6, as stated, fails: with the attachments \<^verbatim>\<open>{"img.png": {}}\<close>, the first pass
  starts with \<open>appendValue = 2\<close> and ends with \<open>appendValue = 3\<close>.
\<close>

theorem collision_step_advances_appendValue:
  "collision_step [(''img.png'', [])] ''X'' ''img'' ''.png'' ''img.png'' 2 = Again ''img.png'' 3 \<and>
   collision_step [(''img.png'', [])] ''X'' ''img'' ''.png'' ''img.png'' 2 \<noteq> Again ''img.png'' 2"
  by (simp add: collision_step_own)

text \<open>
  C7. When the namer, called as its caller does with the attachments of the cell,
  returns, the settled name is not a key of those attachments, or it is a key whose
  record has the new payload as the payload of its first entry.
\<close>

theorem buildAttachment_name_free_or_same_content:
  assumes "buildAttachment b64 cell filename filetype (cell_attachments cell) = Some (Inr r)"
  shows "lookup_attachment (cell_attachments cell) (out_filename r) = None \<or>
         (\<exists>mime rest. lookup_attachment (cell_attachments cell) (out_filename r)
            = Some ((mime, b64) # rest))"
proof (cases "cell_attachments cell")
  case None
  then show ?thesis by (simp add: lookup_attachment_def)
next
  case (Some store)
  then obtain cust where c: "custom (cell_metadata cell) = Some cust"
    and a: "attachments cust = Some store"
    by (auto simp add: cell_attachments_def split: option.splits)
  from assms Some c a obtain settled where
    l: "collision_loop store b64 filename filetype (filename @ filetype) 2 = Some settled"
    and s: "out_filename r = settled"
    by (auto simp add: buildAttachment_def Let_def split: option.splits)
  from collision_loop_settled [OF l] s Some show ?thesis
    by (simp add: lookup_attachment_def)
qed

theorem buildAttachment_name_free_or_same_content_witness:
  "buildAttachment ''Y'' (example_cell (Some [(''img.png'', [(''image/png'', ''X'')])]))
       ''img'' ''.png''
       (cell_attachments (example_cell (Some [(''img.png'', [(''image/png'', ''X'')])])))
     = Some (Inr \<lparr>out_metadata = example_metadata
                     (Some [(''img.png'', [(''image/png'', ''X'')]),
                            (''img-2.png'', [(''image/png'', ''Y'')])]),
                  out_filename = ''img-2.png''\<rparr>) \<and>
   lookup_attachment
       (cell_attachments (example_cell (Some [(''img.png'', [(''image/png'', ''X'')])])))
       ''img-2.png'' = None"
proof -
  let ?C = "example_cell (Some [(''img.png'', [(''image/png'', ''X'')])])"
  let ?R = "\<lparr>out_metadata = example_metadata
                     (Some [(''img.png'', [(''image/png'', ''X'')]),
                            (''img-2.png'', [(''image/png'', ''Y'')])]),
                  out_filename = ''img-2.png''\<rparr>"
  have run: "buildAttachment ''Y'' ?C ''img'' ''.png'' (cell_attachments ?C) = Some (Inr ?R)"
    by (simp add: buildAttachment_def example_cell_def example_metadata_def Let_def
          cell_attachments_def
          collision_loop.simps collision_step_def has_property_def property_entries_def
        object_prototype_keys_def string_of_nat.simps digit_char_def)
  from buildAttachment_name_free_or_same_content [OF run]
  have "lookup_attachment (cell_attachments ?C) ''img-2.png'' = None \<or>
      (\<exists>mime rest. lookup_attachment (cell_attachments ?C) ''img-2.png''
         = Some ((mime, ''Y'') # rest))"
    by simp
  then have "lookup_attachment (cell_attachments ?C) ''img-2.png'' = None"
    by (auto simp add: lookup_attachment_def cell_attachments_def example_cell_def
          example_metadata_def)
  with run show ?thesis by simp
qed

text \<open>
  C10. The comparison that lets a name be reused looks at the payload of the first
  entry only, whatever its MIME type: if the record under a candidate name starts with
  an entry \<open>(mime, b64)\<close>, for any \<open>mime\<close>, the loop stops on that candidate, and the
  namer returns the name \<open>filename @ filetype\<close> when that is the candidate.
\<close>

theorem buildAttachment_reuse_ignores_mime:
  assumes "map_of store tempFilename = Some ((mime, b64) # rest)"
  shows "collision_loop store b64 filename filetype tempFilename appendValue
           = Some tempFilename \<and>
         (tempFilename = filename @ filetype \<longrightarrow>
            map_option (map_sum id out_filename)
              (buildAttachment b64 cell filename filetype (Some store))
            = Some (Inr (filename @ filetype)))"
proof -
  have "collision_step store b64 filename filetype tempFilename appendValue = Exit tempFilename"
    for appendValue
    using assms by (simp add: collision_step_own)
  then have l: "collision_loop store b64 filename filetype tempFilename appendValue
      = Some tempFilename" for appendValue
    by (rule collision_loop_Exit)
  from l [of 2] l [of appendValue] show ?thesis
    by (auto simp add: buildAttachment_def Let_def split: option.splits)
qed

theorem buildAttachment_reuse_ignores_mime_witness:
  "map_of [(''img.png'', [(''image/jpeg'', ''X''), (''image/png'', ''Q'')])] ''img.png''
     = Some ((''image/jpeg'', ''X'') # [(''image/png'', ''Q'')]) \<and>
   ''img.png'' = ''img'' @ ''.png'' \<and>
   map_option (map_sum id out_filename)
     (buildAttachment ''X''
        (example_cell (Some [(''img.png'', [(''image/jpeg'', ''X''), (''image/png'', ''Q'')])]))
        ''img'' ''.png''
        (Some [(''img.png'', [(''image/jpeg'', ''X''), (''image/png'', ''Q'')])]))
     = Some (Inr ''img.png'')"
proof -
  have h: "map_of [(''img.png'', [(''image/jpeg'', ''X''), (''image/png'', ''Q'')])] ''img.png''
      = Some ((''image/jpeg'', ''X'') # [(''image/png'', ''Q'')])"
    by simp
  from buildAttachment_reuse_ignores_mime [OF h, of "''img''" "''.png''" 2
      "example_cell (Some [(''img.png'', [(''image/jpeg'', ''X''), (''image/png'', ''Q'')])])"] h
  show ?thesis by simp
qed

subsection \<open>Building the edit\<close>

text \<open>
  C3 says that a suggested file name without a \<^verbatim>\<open>.\<close> yields no edit. The code does
  return an edit for the name \<^verbatim>\<open>abc\<close>: \<^verbatim>\<open>lastIndexOf\<close> gives \<open>-1\<close>, the two slices are
  \<^verbatim>\<open>ab\<close> and \<^verbatim>\<open>c\<close>, neither is empty, and the attachment is stored under \<^verbatim>\<open>abc\<close>.
\<close>

theorem buildImageMarkdown_no_extension:
  "lastIndexOf ''abc'' (CHR ''.'') = - 1 \<and>
   buildImageMarkdown example_notebooks (example_transfer ''abc'' [0]) example_document
     = Some (Inr (Some
         \<lparr>snippet = [Text ''!['', Placeholder ''abc'', Text ''](attachment:abc)''],
          edit = [(example_uri,
                   [\<lparr>edit_cell_index = 0,
                     edit_metadata = example_metadata
                       (Some [(''abc'', [(''image/png'', ''AA=='')])])\<rparr>])]\<rparr>))"
  by (simp add: buildImageMarkdown_def example_notebooks_def example_transfer_def
        example_document_def example_cell_def example_metadata_def example_uri_def
        string_slice_def string_slice_from_def cell_attachments_def buildAttachment_def
        encodeBase64_list dictionary_of_def tail1_def base64Alphabet_def Let_def)


end
